theory Spec2Isabelle
  imports Complex_Main
begin

section \<open>Configuration values and validation errors\<close>

text \<open>
  The configuration is a parsed JSON/YAML document. Its values are modelled by one
  datatype; a Python \<open>dict\<close> is an association list in insertion order whose keys are
  distinct (theorems that depend on the number of entries state the distinctness).
  A Python \<open>float\<close> is modelled by a real number: the validators only compare finite
  values with the constants 28.0 and 29.0.
\<close>

datatype val =
    VNone
  | VBool bool
  | VInt int
  | VFloat real
  | VStr string
  | VDict "(string \<times> val) list"
  | VList "val list"

type_synonym dict = "(string \<times> val) list"

text \<open>
  \<open>marshmallow.ValidationError(message, field_names)\<close>: the second argument names the
  fields the message is stored under; when it is left out the library uses the single
  name \<open>_schema\<close>. \<open>TypeError\<close> is what Python raises when a comparison or a call does
  not fit the types of its arguments.
\<close>

datatype error =
    ValidationError string "string list"
  | TypeError

definition keys :: "dict \<Rightarrow> string list" where
  "keys d = map fst d"

section \<open>StrictSchema\<close>

text \<open>
  \<open>StrictSchema.check_unknown_fields(self, data, original_data)\<close>. The first argument
  stands for \<open>self.fields\<close>, the names of the declared fields of the schema the check runs
  in. \<open>set(original_data) - set(self.fields)\<close> is the set of surplus keys and
  \<open>list(unknown_fields)\<close> enumerates it in an order Python does not specify; the model
  enumerates it in the order of first occurrence in the input.
\<close>

definition check_unknown_fields :: "string list \<Rightarrow> dict \<Rightarrow> dict \<Rightarrow> error + unit" where
  "check_unknown_fields self_fields data original_data =
     (let unknown_fields = filter (\<lambda>k. k \<notin> set self_fields) (remdups (keys original_data))
      in if unknown_fields \<noteq> []
         then Inl (ValidationError ''Unknown field'' unknown_fields)
         else Inr ())"

section \<open>PushTopicSchema\<close>

text \<open>
  The two schema-level validators of \<open>PushTopicSchema\<close>. Their argument \<open>data\<close> is the
  mapping of the fields that passed their own field-level validation; as the comment in
  \<open>check_api_version\<close> says, a field whose value failed validation is absent from it.
\<close>

definition single_field_message :: string where
  "single_field_message =
     ''If only a single field is specified it should be a unique identifier like 'Id' or 'Name'.''"

definition full_definition_message :: string where
  "full_definition_message =
     ''If multiple fields are specified it it should be a full resource definition where at least 'Name', 'ApiVersion' and 'Query' are required.''"

definition no_field_message :: string where
  "no_field_message =
     ''Either a single fields should be specified which uniquely identifies the resource or multiple fields which can be used to construct the resource.''"

definition old_field_message :: string where
  "old_field_message =
     '''NotifyForOperations' can only be specified for API version 28.0 and earlier.''"

definition new_field_message :: string where
  "new_field_message =
     '''NotifyForOperationCreate', 'NotifyForOperationDelete', 'NotifyForOperationUndelete' and 'NotifyForOperationUpdate' can only be specified for API version 29.0 and later.''"

definition PushTopicSchema_check_required_fileds :: "dict \<Rightarrow> error + unit" where
  "PushTopicSchema_check_required_fileds data =
     (if length data = 1 then
        (let unique_id_fields = {''Id'', ''Name''}
         in if set (keys data) \<inter> unique_id_fields = {}
            then Inl (ValidationError single_field_message [''_schema''])
            else Inr ())
      else if length data > 1 then
        (let required_fields = {''Name'', ''ApiVersion'', ''Query''}
         in if set (keys data) \<inter> required_fields \<noteq> required_fields
            then Inl (ValidationError full_definition_message [''_schema''])
            else Inr ())
      else Inl (ValidationError no_field_message [''_schema'']))"

text \<open>
  \<open>data["ApiVersion"] >= 29.0\<close>: Python compares a float, an int or a bool with a float
  and raises TypeError for any other value.
\<close>

fun number :: "val \<Rightarrow> real option" where
  "number (VFloat r) = Some r"
| "number (VInt i) = Some (of_int i)"
| "number (VBool b) = Some (if b then 1 else 0)"
| "number v = None"

definition check_api_version :: "dict \<Rightarrow> error + unit" where
  "check_api_version data =
     (case map_of data ''ApiVersion'' of
        None \<Rightarrow> Inr ()
      | Some v \<Rightarrow>
          (case number v of
             None \<Rightarrow> Inl TypeError
           | Some api_version \<Rightarrow>
               if api_version \<ge> 29.0 \<and> ''NotifyForOperations'' \<in> set (keys data)
               then Inl (ValidationError old_field_message [''_schema''])
               else if api_version \<le> 28.0 \<and>
                       (''NotifyForOperationCreate'' \<in> set (keys data) \<or>
                        ''NotifyForOperationDelete'' \<in> set (keys data) \<or>
                        ''NotifyForOperationUndelete'' \<in> set (keys data) \<or>
                        ''NotifyForOperationUpdate'' \<in> set (keys data))
               then Inl (ValidationError new_field_message [''_schema''])
               else Inr ()))"

section \<open>Field declarations and loading\<close>

text \<open>
  The schemas declare their fields with \<open>marshmallow.fields\<close>. The part of that library
  the declarations of \<open>StreamingChannelSchema\<close> and \<open>RouteSchema\<close> use is modelled here:
  a field has a type (\<open>fields.String\<close>, or \<open>fields.Dict\<close> with optional \<open>keys=\<close> and
  \<open>values=\<close> containers), the flags \<open>required\<close> and \<open>allow_none\<close> (both False unless the
  declaration sets them) and the validators of \<open>validate=\<close>.
\<close>

datatype validator = Length "nat option" "nat option"

datatype container = NoContainer | StringContainer

datatype ftype = String | Dict container container

record Field =
  ftype :: ftype
  required :: bool
  allow_none :: bool
  validate :: "validator list"

fun len :: "val \<Rightarrow> nat option" where
  "len (VStr s) = Some (length s)"
| "len (VDict d) = Some (length d)"
| "len (VList xs) = Some (length xs)"
| "len v = None"

text \<open>\<open>Length(min, max)\<close>: the length must not be below \<open>min\<close> nor above \<open>max\<close>.\<close>

fun validator_ok :: "validator \<Rightarrow> val \<Rightarrow> bool" where
  "validator_ok (Length lo hi) v =
     (case len v of
        None \<Rightarrow> False
      | Some n \<Rightarrow> (case lo of None \<Rightarrow> True | Some a \<Rightarrow> a \<le> n) \<and>
                  (case hi of None \<Rightarrow> True | Some b \<Rightarrow> n \<le> b))"

fun is_str :: "val \<Rightarrow> bool" where
  "is_str (VStr s) = True"
| "is_str v = False"

text \<open>
  The type-specific step: a String field takes a string only; a Dict field takes a
  mapping and hands every value to the \<open>values=\<close> container (the keys of a \<open>dict\<close> of the
  model are strings already, so a String key container accepts them all).
\<close>

fun deserialize_type :: "ftype \<Rightarrow> val \<Rightarrow> string + val" where
  "deserialize_type String (VStr s) = Inr (VStr s)"
| "deserialize_type String v = Inl ''Not a valid string.''"
| "deserialize_type (Dict kc vc) (VDict d) =
     (if vc = StringContainer \<and> \<not> list_all (\<lambda>(k, v). is_str v) d
      then Inl ''Not a valid string.''
      else Inr (VDict d))"
| "deserialize_type (Dict kc vc) v = Inl ''Not a valid mapping type.''"

text \<open>
  Deserialising one field from the raw input value (None: the key is missing). A missing
  value is an error when the field is required and is skipped otherwise; a null is kept
  when \<open>allow_none\<close> is set and is an error otherwise; any other value is converted and
  then handed to every validator.
\<close>

definition deserialize :: "Field \<Rightarrow> val option \<Rightarrow> string + val option" where
  "deserialize f raw =
     (case raw of
        None \<Rightarrow> if required f then Inl ''Missing data for required field.'' else Inr None
      | Some v \<Rightarrow>
          if v = VNone then
            (if allow_none f then Inr (Some VNone) else Inl ''Field may not be null.'')
          else
            (case deserialize_type (ftype f) v of
               Inl msg \<Rightarrow> Inl msg
             | Inr output \<Rightarrow>
                 if list_all (\<lambda>c. validator_ok c output) (validate f)
                 then Inr (Some output)
                 else Inl ''Invalid value.''))"

text \<open>
  All declared fields in turn: the values that pass are collected in \<open>data\<close>, the failures
  are recorded under the field's name.
\<close>

fun unmarshal :: "(string \<times> Field) list \<Rightarrow> dict \<Rightarrow> dict \<times> error list" where
  "unmarshal [] original_data = ([], [])"
| "unmarshal ((name, f) # fs) original_data =
     (case unmarshal fs original_data of
        (data, errors) \<Rightarrow>
          (case deserialize f (map_of original_data name) of
             Inl msg \<Rightarrow> (data, ValidationError msg [name] # errors)
           | Inr None \<Rightarrow> (data, errors)
           | Inr (Some v) \<Rightarrow> ((name, v) # data, errors)))"

text \<open>
  A schema is its declared fields and its \<open>validates_schema\<close> methods; a method takes the
  deserialised data and the original input. \<open>load\<close> runs the fields, then every schema
  validator, and accepts the input when nothing failed.
\<close>

record Schema =
  declared_fields :: "(string \<times> Field) list"
  validators :: "(dict \<Rightarrow> dict \<Rightarrow> error + unit) list"

definition load :: "Schema \<Rightarrow> dict \<Rightarrow> error list + dict" where
  "load S original_data =
     (case unmarshal (declared_fields S) original_data of
        (data, field_errors) \<Rightarrow>
          (let schema_errors =
                 concat (map (\<lambda>check. case check data original_data of
                                          Inl e \<Rightarrow> [e] | Inr u \<Rightarrow> [])
                             (validators S));
               errors = field_errors @ schema_errors
           in if errors = [] then Inr data else Inl errors))"

section \<open>StreamingChannelSchema\<close>

definition StreamingChannelSchema_fields :: "(string \<times> Field) list" where
  "StreamingChannelSchema_fields =
     [(''Id'', \<lparr>ftype = String, required = False, allow_none = False,
               validate = [Length (Some 1) None]\<rparr>),
      (''Name'', \<lparr>ftype = String, required = False, allow_none = False,
                 validate = [Length (Some 1) (Some 80)]\<rparr>),
      (''Description'', \<lparr>ftype = String, required = False, allow_none = False,
                        validate = [Length None (Some 255)]\<rparr>)]"

definition StreamingChannelSchema_check_required_fileds :: "dict \<Rightarrow> error + unit" where
  "StreamingChannelSchema_check_required_fileds data =
     (if length data = 1 then
        (let unique_id_fields = {''Id'', ''Name''}
         in if set (keys data) \<inter> unique_id_fields = {}
            then Inl (ValidationError single_field_message [''_schema''])
            else Inr ())
      else if data = [] then Inl (ValidationError no_field_message [''_schema''])
      else Inr ())"

definition StreamingChannelSchema :: Schema where
  "StreamingChannelSchema =
     \<lparr>declared_fields = StreamingChannelSchema_fields,
      validators = [check_unknown_fields (map fst StreamingChannelSchema_fields),
                    \<lambda>data original_data. StreamingChannelSchema_check_required_fileds data]\<rparr>"

section \<open>RouteSchema\<close>

definition RouteSchema_fields :: "(string \<times> Field) list" where
  "RouteSchema_fields =
     [(''broker_name'', \<lparr>ftype = String, required = True, allow_none = False,
                        validate = [Length (Some 1) None]\<rparr>),
      (''exchange_name'', \<lparr>ftype = String, required = True, allow_none = False,
                          validate = []\<rparr>),
      (''routing_key'', \<lparr>ftype = String, required = True, allow_none = False,
                        validate = [Length (Some 1) None]\<rparr>),
      (''properties'', \<lparr>ftype = Dict StringContainer StringContainer, required = False,
                       allow_none = True, validate = []\<rparr>)]"

definition RouteSchema :: Schema where
  "RouteSchema =
     \<lparr>declared_fields = RouteSchema_fields,
      validators = [check_unknown_fields (map fst RouteSchema_fields)]\<rparr>"

section \<open>Factories\<close>

text \<open>
  The factory functions of \<open>factories.py\<close>. The classes they instantiate are imported
  from other modules; an object is modelled by the arguments its constructor is called
  with (the record fields carry the names of the constructor's arguments with a prefix). The pluggable factories (\<open>org_factory\<close>, \<open>route_factory\<close>, \<open>rule_factory\<close>) are
  parameters, as in the source, and may raise. \<open>loop\<close> is the event loop handle that is
  passed through unchanged.
\<close>

typedecl loop

datatype ReplayOption = NEW_EVENTS | ALL_EVENTS

text \<open>
  A comprehension over calls that may raise: the calls are made in order and the first
  exception ends the evaluation.
\<close>

fun collect :: "('a \<Rightarrow> error + 'b) \<Rightarrow> 'a list \<Rightarrow> error + 'b list" where
  "collect f [] = Inr []"
| "collect f (x # xs) =
     (case f x of
        Inl e \<Rightarrow> Inl e
      | Inr y \<Rightarrow> (case collect f xs of Inl e \<Rightarrow> Inl e | Inr ys \<Rightarrow> Inr (y # ys)))"

text \<open>
  \<open>RedisReplayStorage(**replay_spec, loop=loop)\<close>. Objects have identity: the storages
  that a call creates are returned in creation order next to its result, and a message
  source refers to a storage by its position in that list.
\<close>

record RedisReplayStorage =
  storage_kwargs :: dict
  storage_loop :: "loop option"

type_synonym storage_ref = nat

record 'org SalesforceOrgMessageSource =
  src_name :: string
  src_org :: 'org
  src_replay_marker_storage :: "storage_ref option"
  src_replay_fallback :: "ReplayOption option"
  src_loop :: "loop option"

datatype 'org MessageSource =
    OrgMessageSource "'org SalesforceOrgMessageSource"
  | MultiMessageSource "'org SalesforceOrgMessageSource list" "loop option"

text \<open>\<open>if replay_spec:\<close> is false for None and for the empty mapping.\<close>

fun truthy :: "dict option \<Rightarrow> bool" where
  "truthy None = False"
| "truthy (Some d) = (d \<noteq> [])"

definition create_message_source ::
  "(string \<times> dict) list \<Rightarrow> dict option \<Rightarrow> (dict \<Rightarrow> error + 'org) \<Rightarrow> loop option
     \<Rightarrow> error + ('org MessageSource \<times> RedisReplayStorage list)" where
  "create_message_source org_specs replay_spec org_factory loop =
     (case (if truthy replay_spec then
              (if ''loop'' \<in> set (keys (the replay_spec)) then Inl TypeError
               else Inr (Some 0, Some ALL_EVENTS,
                         [\<lparr>storage_kwargs = the replay_spec, storage_loop = loop\<rparr>]))
            else Inr (None, None, [])) of
        Inl e \<Rightarrow> Inl e
      | Inr (replay_marker_storage, replay_fallback, created) \<Rightarrow>
          (case collect (\<lambda>(name, spec). case org_factory spec of
                                           Inl e \<Rightarrow> Inl e | Inr org \<Rightarrow> Inr (name, org))
                        org_specs of
             Inl e \<Rightarrow> Inl e
           | Inr salesforce_orgs \<Rightarrow>
               (let message_sources =
                      map (\<lambda>(name, org).
                             \<lparr>src_name = name, src_org = org,
                              src_replay_marker_storage = replay_marker_storage,
                              src_replay_fallback = replay_fallback,
                              src_loop = loop\<rparr>)
                          salesforce_orgs
                in if length message_sources = 1
                   then Inr (OrgMessageSource (message_sources ! 0), created)
                   else Inr (MultiMessageSource message_sources loop, created))))"

text \<open>The per-org sources a message source consists of.\<close>

fun sources :: "'org MessageSource \<Rightarrow> 'org SalesforceOrgMessageSource list" where
  "sources (OrgMessageSource s) = [s]"
| "sources (MultiMessageSource ss l) = ss"

text \<open>\<open>MessageRouter(default_route, rules)\<close>.\<close>

record ('route, 'rule) MessageRouter =
  router_default_route :: "'route option"
  router_rules :: "'rule list"

definition create_router ::
  "dict option \<Rightarrow> dict list \<Rightarrow> (dict \<Rightarrow> error + 'route) \<Rightarrow> (dict \<Rightarrow> error + 'rule)
     \<Rightarrow> error + ('route, 'rule) MessageRouter" where
  "create_router default_route_spec rule_specs route_factory rule_factory =
     (case (case default_route_spec of
              None \<Rightarrow> Inr None
            | Some spec \<Rightarrow> (case route_factory spec of
                              Inl e \<Rightarrow> Inl e | Inr route \<Rightarrow> Inr (Some route))) of
        Inl e \<Rightarrow> Inl e
      | Inr default_route \<Rightarrow>
          (case collect rule_factory rule_specs of
             Inl e \<Rightarrow> Inl e
           | Inr rules \<Rightarrow> Inr \<lparr>router_default_route = default_route, router_rules = rules\<rparr>))"

section \<open>Application: completion of a forwarding task\<close>

text \<open>
  Modelled from the spec: the state of the \<open>Application\<close> that the completion hook reads
  and changes (\<open>rabbit_force/app.py\<close> is not among the sources; its tests are): the flag
  \<open>ignore_sink_errors\<close>, the in-flight set that maps a task to its
  \<open>SourceMessagePair\<close>, and the log records written, each with its level and the task it
  is about. A finished task carries either the exception it raised or the route it
  returned (None when no route was found).
\<close>

datatype exception = MessageSinkError string | OtherException string

datatype level = INFO | WARNING | ERROR

record SourceMessagePair =
  source_name :: string
  message :: val

type_synonym task = nat

record Application =
  ignore_sink_errors :: bool
  forwarding_tasks :: "task \<rightharpoonup> SourceMessagePair"
  logged :: "(level \<times> task) list"

text \<open>
  Modelled from the spec: \<open>Application._forward_message_done\<close>, which is missing with
  \<open>app.py\<close>. The completion hook inspects the result of the finished task: a route is
  logged at INFO, no route at WARNING; a \<open>MessageSinkError\<close> is logged at ERROR and
  swallowed when \<open>ignore_sink_errors\<close> is set and re-raised otherwise; any other
  exception is propagated. The task is removed from the in-flight set after handling, on
  every path.
\<close>

definition forward_message_done ::
  "Application \<Rightarrow> task \<Rightarrow> exception + 'route option \<Rightarrow> (exception + unit) \<times> Application" where
  "forward_message_done app future result =
     (let done = app\<lparr>forwarding_tasks := (forwarding_tasks app)(future := None)\<rparr>
      in case result of
           Inr (Some route) \<Rightarrow> (Inr (), done\<lparr>logged := logged app @ [(INFO, future)]\<rparr>)
         | Inr None \<Rightarrow> (Inr (), done\<lparr>logged := logged app @ [(WARNING, future)]\<rparr>)
         | Inl (MessageSinkError m) \<Rightarrow>
             if ignore_sink_errors app
             then (Inr (), done\<lparr>logged := logged app @ [(ERROR, future)]\<rparr>)
             else (Inl (MessageSinkError m), done)
         | Inl (OtherException m) \<Rightarrow> (Inl (OtherException m), done))"

section \<open>Properties of the unknown-field check\<close>

text \<open>
  C1. In every schema derived from StrictSchema (the check is parametric in the declared
  field names), an input that has a key which is not a declared field makes the check
  fail with a validation error whose payload names exactly the unknown keys, each once;
  an input with declared keys only passes the check.
\<close>

theorem check_unknown_fields_exact:
  "((\<exists>k \<in> set (keys original_data). k \<notin> set self_fields) \<longrightarrow>
      (\<exists>names. check_unknown_fields self_fields data original_data
                  = Inl (ValidationError ''Unknown field'' names)
             \<and> set names = set (keys original_data) - set self_fields
             \<and> distinct names))
   \<and> (set (keys original_data) \<subseteq> set self_fields \<longrightarrow>
        check_unknown_fields self_fields data original_data = Inr ())"
proof (intro conjI impI)
  let ?u = "filter (\<lambda>k. k \<notin> set self_fields) (remdups (keys original_data))"
  assume "\<exists>k \<in> set (keys original_data). k \<notin> set self_fields"
  then have ne: "?u \<noteq> []"
    by (auto simp: filter_empty_conv)
  have "set ?u = set (keys original_data) - set self_fields"
    by auto
  moreover have "distinct ?u"
    by simp
  moreover have "check_unknown_fields self_fields data original_data
                   = Inl (ValidationError ''Unknown field'' ?u)"
    using ne by (simp add: check_unknown_fields_def Let_def)
  ultimately show "\<exists>names. check_unknown_fields self_fields data original_data
                  = Inl (ValidationError ''Unknown field'' names)
             \<and> set names = set (keys original_data) - set self_fields
             \<and> distinct names"
    by blast
next
  assume "set (keys original_data) \<subseteq> set self_fields"
  then have "filter (\<lambda>k. k \<notin> set self_fields) (remdups (keys original_data)) = []"
    by (auto simp: filter_empty_conv)
  then show "check_unknown_fields self_fields data original_data = Inr ()"
    by (simp add: check_unknown_fields_def Let_def)
qed

theorem check_unknown_fields_exact_witness:
  "(\<exists>k \<in> set (keys [(''Name'', VStr ''n''), (''Foo'', VInt 1)]).
       k \<notin> set [''Id'', ''Name'', ''Description''])
   \<and> (\<exists>names. check_unknown_fields [''Id'', ''Name'', ''Description''] []
                 [(''Name'', VStr ''n''), (''Foo'', VInt 1)]
                 = Inl (ValidationError ''Unknown field'' names)
            \<and> set names = {''Foo''} \<and> distinct names)
   \<and> set (keys [(''Name'', VStr ''n'')]) \<subseteq> set [''Id'', ''Name'', ''Description'']
   \<and> check_unknown_fields [''Id'', ''Name'', ''Description'']
         [(''Name'', VStr ''n'')] [(''Name'', VStr ''n'')] = Inr ()"
proof -
  have h1: "\<exists>k \<in> set (keys [(''Name'', VStr ''n''), (''Foo'', VInt 1)]).
              k \<notin> set [''Id'', ''Name'', ''Description'']"
    by (simp add: keys_def)
  have d: "set (keys [(''Name'', VStr ''n''), (''Foo'', VInt 1)])
             - set [''Id'', ''Name'', ''Description''] = {''Foo''}"
    by (auto simp: keys_def)
  have h2: "set (keys [(''Name'', VStr ''n'')]) \<subseteq> set [''Id'', ''Name'', ''Description'']"
    by (simp add: keys_def)
  from check_unknown_fields_exact
         [of "[(''Name'', VStr ''n''), (''Foo'', VInt 1)]"
             "[''Id'', ''Name'', ''Description'']" "[]"] h1 d
  have a: "\<exists>names. check_unknown_fields [''Id'', ''Name'', ''Description''] []
                 [(''Name'', VStr ''n''), (''Foo'', VInt 1)]
                 = Inl (ValidationError ''Unknown field'' names)
            \<and> set names = {''Foo''} \<and> distinct names"
    by simp
  from check_unknown_fields_exact
         [of "[(''Name'', VStr ''n'')]" "[''Id'', ''Name'', ''Description'']"
             "[(''Name'', VStr ''n'')]"] h2
  have b: "check_unknown_fields [''Id'', ''Name'', ''Description'']
         [(''Name'', VStr ''n'')] [(''Name'', VStr ''n'')] = Inr ()"
    by simp
  from h1 a h2 b show ?thesis by blast
qed

section \<open>Properties of the PushTopic validators\<close>

text \<open>
  Outside the open interval between 28.0 and 29.0 the version check does what its
  messages say: the old field passes only up to 28.0, the new fields only from 29.0 on.
\<close>

lemma check_api_version_outside_gap:
  assumes "map_of data ''ApiVersion'' = Some (VFloat a)" and "a \<le> 28 \<or> 29 \<le> a"
  shows "check_api_version data = Inr () \<longleftrightarrow>
           (''NotifyForOperations'' \<in> set (keys data) \<longrightarrow> a \<le> 28) \<and>
           ((''NotifyForOperationCreate'' \<in> set (keys data) \<or>
             ''NotifyForOperationUpdate'' \<in> set (keys data) \<or>
             ''NotifyForOperationDelete'' \<in> set (keys data) \<or>
             ''NotifyForOperationUndelete'' \<in> set (keys data)) \<longrightarrow> 29 \<le> a)"
  using assms by (auto simp: check_api_version_def)

text \<open>Scenario S6: ApiVersion 30.0 together with NotifyForOperations is rejected.\<close>

lemma check_api_version_scenario_S6:
  "check_api_version
     [(''Name'', VStr ''t''), (''ApiVersion'', VFloat 30.0),
      (''Query'', VStr ''SELECT Id FROM X''), (''NotifyForOperations'', VStr ''All'')]
     = Inl (ValidationError old_field_message [''_schema''])"
  by (simp add: check_api_version_def keys_def)

text \<open>
  C2. The claim: with a valid ApiVersion, NotifyForOperations is accepted only when
  ApiVersion <= 28.0 and the four NotifyForOperation* fields only when
  ApiVersion >= 29.0. The check compares with \<open>>= 29.0\<close> and \<open><= 28.0\<close>, so a version
  strictly between the two constants, which the field's range of 20.0 to 42.0 admits,
  passes with either kind of field: at ApiVersion 28.5 the check accepts
  NotifyForOperations, and it accepts NotifyForOperationCreate.
\<close>

theorem check_api_version_gap:
  "check_api_version
     [(''Name'', VStr ''t''), (''ApiVersion'', VFloat 28.5),
      (''Query'', VStr ''SELECT Id FROM X''), (''NotifyForOperations'', VStr ''All'')]
     = Inr ()
   \<and> check_api_version
     [(''Name'', VStr ''t''), (''ApiVersion'', VFloat 28.5),
      (''Query'', VStr ''SELECT Id FROM X''), (''NotifyForOperationCreate'', VBool True)]
     = Inr ()"
  by (simp add: check_api_version_def keys_def)

text \<open>
  C3. The required-fields check of PushTopicSchema rejects the empty mapping; a mapping
  with exactly one field passes exactly when that field is Id or Name; and a mapping
  that contains any field other than Id and Name passes only if Name, ApiVersion and
  Query are all present.
\<close>

theorem PushTopicSchema_required_fields:
  "PushTopicSchema_check_required_fileds [] = Inl (ValidationError no_field_message [''_schema''])
   \<and> (length data = 1 \<longrightarrow>
        (PushTopicSchema_check_required_fileds data = Inr () \<longleftrightarrow>
           keys data = [''Id''] \<or> keys data = [''Name'']))
   \<and> ((\<exists>k \<in> set (keys data). k \<noteq> ''Id'' \<and> k \<noteq> ''Name'') \<and>
        PushTopicSchema_check_required_fileds data = Inr () \<longrightarrow>
          ''Name'' \<in> set (keys data) \<and> ''ApiVersion'' \<in> set (keys data) \<and>
          ''Query'' \<in> set (keys data))"
proof -
  have empty: "PushTopicSchema_check_required_fileds []
                 = Inl (ValidationError no_field_message [''_schema''])"
    by (simp add: PushTopicSchema_check_required_fileds_def)
  have single: "PushTopicSchema_check_required_fileds data = Inr () \<longleftrightarrow>
           keys data = [''Id''] \<or> keys data = [''Name'']" if "length data = 1"
  proof -
    from that obtain k v where d: "data = [(k, v)]"
      by (cases data) auto
    show ?thesis
      unfolding d by (auto simp: PushTopicSchema_check_required_fileds_def keys_def)
  qed
  have full: "''Name'' \<in> set (keys data) \<and> ''ApiVersion'' \<in> set (keys data) \<and>
          ''Query'' \<in> set (keys data)"
    if k: "k \<in> set (keys data)" "k \<noteq> ''Id''" "k \<noteq> ''Name''"
    and ok: "PushTopicSchema_check_required_fileds data = Inr ()" for k
  proof -
    have "length data \<noteq> 0" using k by (auto simp: keys_def)
    moreover have "length data \<noteq> 1"
      using single k by (auto simp: ok)
    ultimately have "length data > 1" by arith
    with ok have "set (keys data) \<inter> {''Name'', ''ApiVersion'', ''Query''}
                    = {''Name'', ''ApiVersion'', ''Query''}"
      by (simp add: PushTopicSchema_check_required_fileds_def Let_def split: if_splits)
    then show ?thesis
      by blast
  qed
  from empty single full show ?thesis
    by blast
qed

theorem PushTopicSchema_required_fields_witness:
  "length [(''Id'', VStr ''0IF'')] = 1
   \<and> PushTopicSchema_check_required_fileds [(''Id'', VStr ''0IF'')] = Inr ()
   \<and> (\<exists>k \<in> set (keys [(''Name'', VStr ''t''), (''ApiVersion'', VFloat 30.0),
                        (''Query'', VStr ''SELECT Id FROM X'')]).
         k \<noteq> ''Id'' \<and> k \<noteq> ''Name'')
   \<and> PushTopicSchema_check_required_fileds
        [(''Name'', VStr ''t''), (''ApiVersion'', VFloat 30.0),
         (''Query'', VStr ''SELECT Id FROM X'')] = Inr ()
   \<and> ''ApiVersion'' \<in> set (keys [(''Name'', VStr ''t''), (''ApiVersion'', VFloat 30.0),
                                  (''Query'', VStr ''SELECT Id FROM X'')])"
proof -
  let ?one = "[(''Id'', VStr ''0IF'')]"
  let ?full = "[(''Name'', VStr ''t''), (''ApiVersion'', VFloat 30.0),
                (''Query'', VStr ''SELECT Id FROM X'')]"
  have l: "length ?one = 1" by simp
  have k: "keys ?one = [''Id'']" by (simp add: keys_def)
  from PushTopicSchema_required_fields[of ?one] l k
  have a: "PushTopicSchema_check_required_fileds ?one = Inr ()"
    by blast
  have h: "\<exists>k \<in> set (keys ?full). k \<noteq> ''Id'' \<and> k \<noteq> ''Name''"
    by (simp add: keys_def)
  have ok: "PushTopicSchema_check_required_fileds ?full = Inr ()"
    by (auto simp: PushTopicSchema_check_required_fileds_def keys_def)
  from PushTopicSchema_required_fields[of ?full] h ok
  have b: "''ApiVersion'' \<in> set (keys ?full)"
    by blast
  from l a h ok b show ?thesis
    by blast
qed

section \<open>Properties of loading\<close>

lemma deserialize_missing:
  "deserialize f None = Inr out \<longleftrightarrow> \<not> required f \<and> out = None"
  by (auto simp: deserialize_def)

lemma deserialize_String:
  assumes "ftype f = String" and "\<not> allow_none f"
  shows "deserialize f (Some v) = Inr out \<longleftrightarrow>
           (\<exists>s. v = VStr s \<and> out = Some (VStr s) \<and>
                list_all (\<lambda>c. validator_ok c (VStr s)) (validate f))"
  using assms by (cases v) (auto simp: deserialize_def)

lemma deserialize_present:
  "deserialize f (Some v) = Inr out \<Longrightarrow> out \<noteq> None"
  by (auto simp: deserialize_def split: if_splits sum.splits)

text \<open>No field error is recorded exactly when every declared field deserialises.\<close>

lemma unmarshal_errors:
  "snd (unmarshal fs od) = [] \<longleftrightarrow>
     (\<forall>(n, f) \<in> set fs. \<exists>out. deserialize f (map_of od n) = Inr out)"
  by (induction fs) (auto split: prod.splits sum.splits option.splits)

lemma map_of_keys: "map_of od n = None \<longleftrightarrow> n \<notin> set (keys od)"
  by (simp add: keys_def map_of_eq_None_iff)

text \<open>
  Without field errors the deserialised data has the declared fields that the input
  gives, in the order of declaration.
\<close>

lemma unmarshal_keys:
  "snd (unmarshal fs od) = [] \<Longrightarrow>
     keys (fst (unmarshal fs od)) = filter (\<lambda>n. n \<in> set (keys od)) (map fst fs)"
proof (induction fs)
  case Nil
  then show ?case by (simp add: keys_def)
next
  case (Cons a fs)
  obtain n f where a: "a = (n, f)" by (cases a)
  obtain data errs where u: "unmarshal fs od = (data, errs)" by (cases "unmarshal fs od")
  from Cons.prems a u have errs: "errs = []"
    by (auto split: sum.splits option.splits)
  with Cons.IH u have ih: "keys data = filter (\<lambda>n. n \<in> set (keys od)) (map fst fs)"
    by simp
  from Cons.prems a u obtain out where out: "deserialize f (map_of od n) = Inr out"
    by (auto split: sum.splits option.splits)
  show ?case
  proof (cases "map_of od n")
    case None
    with out have "out = None" by (simp add: deserialize_missing)
    with None out a u ih show ?thesis
      by (simp add: keys_def map_of_keys[unfolded keys_def])
  next
    case (Some v)
    with out have "out \<noteq> None" by (auto dest: deserialize_present)
    then obtain w where "out = Some w" by auto
    moreover from Some have "n \<in> set (keys od)"
      using map_of_keys[of od n] by simp
    ultimately show ?thesis using out a u ih
      by (simp add: keys_def)
  qed
qed

lemma load_Inr:
  "load S od = Inr data \<longleftrightarrow>
     snd (unmarshal (declared_fields S) od) = [] \<and>
     data = fst (unmarshal (declared_fields S) od) \<and>
     (\<forall>check \<in> set (validators S). check data od = Inr ())"
proof -
  obtain d errs where u: "unmarshal (declared_fields S) od = (d, errs)"
    by (cases "unmarshal (declared_fields S) od")
  have "concat (map (\<lambda>check. case check d od of Inl e \<Rightarrow> [e] | Inr u \<Rightarrow> []) cs) = []
          \<longleftrightarrow> (\<forall>check \<in> set cs. check d od = Inr ())" for cs
    by (induction cs) (auto split: sum.splits)
  then show ?thesis
    using u by (auto simp: load_def Let_def)
qed

lemma load_rejects: "(\<exists>errors. load S od = Inl errors) \<longleftrightarrow> (\<forall>data. load S od \<noteq> Inr data)"
  by (cases "load S od") auto

text \<open>
  A schema that runs the unknown-field check on its own declared fields rejects every
  input that has a key which is not declared.
\<close>

lemma load_rejects_unknown:
  assumes "check_unknown_fields (map fst (declared_fields S)) \<in> set (validators S)"
    and "k \<in> set (keys od)" and "k \<notin> set (map fst (declared_fields S))"
  shows "\<exists>errors. load S od = Inl errors"
proof -
  have "filter (\<lambda>k. k \<notin> set (map fst (declared_fields S))) (remdups (keys od)) \<noteq> []"
    using assms(2,3) by (auto simp: filter_empty_conv)
  then have "check_unknown_fields (map fst (declared_fields S)) data od \<noteq> Inr ()" for data
    by (simp add: check_unknown_fields_def Let_def)
  with assms(1) show ?thesis
    unfolding load_rejects load_Inr by blast
qed

lemma strict_schemas:
  "check_unknown_fields (map fst (declared_fields StreamingChannelSchema))
     \<in> set (validators StreamingChannelSchema)"
  "check_unknown_fields (map fst (declared_fields RouteSchema)) \<in> set (validators RouteSchema)"
  by (simp_all add: StreamingChannelSchema_def RouteSchema_def)

section \<open>Properties of StreamingChannelSchema\<close>

lemma StreamingChannelSchema_fields_ok:
  assumes "load StreamingChannelSchema spec = Inr data"
  shows "(\<forall>v. map_of spec ''Name'' = Some v \<longrightarrow>
             (\<exists>s. v = VStr s \<and> 1 \<le> length s \<and> length s \<le> 80))
       \<and> (\<forall>v. map_of spec ''Description'' = Some v \<longrightarrow>
             (\<exists>s. v = VStr s \<and> length s \<le> 255))"
proof -
  from assms have "snd (unmarshal StreamingChannelSchema_fields spec) = []"
    by (simp add: load_Inr StreamingChannelSchema_def)
  then have "\<forall>(n, f) \<in> set StreamingChannelSchema_fields.
               \<exists>out. deserialize f (map_of spec n) = Inr out"
    by (simp only: unmarshal_errors)
  then show ?thesis
    by (auto simp: StreamingChannelSchema_fields_def deserialize_String)
qed

lemma StreamingChannelSchema_single:
  assumes "length spec = 1" and "load StreamingChannelSchema spec = Inr data"
  shows "keys spec = [''Id''] \<or> keys spec = [''Name'']"
proof -
  from assms(1) obtain k v where spec: "spec = [(k, v)]"
    by (cases spec) auto
  from assms(2) have errs: "snd (unmarshal StreamingChannelSchema_fields spec) = []"
    and data: "data = fst (unmarshal StreamingChannelSchema_fields spec)"
    and unknown: "check_unknown_fields (map fst StreamingChannelSchema_fields) data spec = Inr ()"
    and req: "StreamingChannelSchema_check_required_fileds data = Inr ()"
    by (auto simp: load_Inr StreamingChannelSchema_def)
  from unknown spec have k: "k \<in> {''Id'', ''Name'', ''Description''}"
    by (auto simp: check_unknown_fields_def keys_def StreamingChannelSchema_fields_def
             split: if_splits)
  from unmarshal_keys[OF errs] data
  have "keys data = filter (\<lambda>n. n \<in> set (keys spec)) (map fst StreamingChannelSchema_fields)"
    by simp
  with k spec have kd: "keys data = [k]"
    by (auto simp: keys_def StreamingChannelSchema_fields_def)
  then have "length (keys data) = 1"
    by simp
  then have "length data = 1"
    by (simp add: keys_def)
  with req kd have "k = ''Id'' \<or> k = ''Name''"
    by (auto simp: StreamingChannelSchema_check_required_fileds_def split: if_splits)
  with spec show ?thesis
    by (auto simp: keys_def)
qed

lemma StreamingChannelSchema_empty:
  "load StreamingChannelSchema [] = Inl [ValidationError no_field_message [''_schema'']]"
  by (simp add: load_def StreamingChannelSchema_def StreamingChannelSchema_fields_def
        deserialize_def check_unknown_fields_def keys_def
        StreamingChannelSchema_check_required_fileds_def)

text \<open>
  What the schema does enforce: the empty spec is rejected; in a spec that is accepted,
  a Name that is given is a string of 1 to 80 characters, a Description that is given
  is a string of at most 255 characters, and a spec of exactly one field has Id or Name.
\<close>

lemma StreamingChannelSchema_given_fields:
  "load StreamingChannelSchema [] = Inl [ValidationError no_field_message [''_schema'']]
   \<and> (load StreamingChannelSchema spec = Inr data \<longrightarrow>
        (\<forall>v. map_of spec ''Name'' = Some v \<longrightarrow>
              (\<exists>s. v = VStr s \<and> 1 \<le> length s \<and> length s \<le> 80))
      \<and> (\<forall>v. map_of spec ''Description'' = Some v \<longrightarrow>
              (\<exists>s. v = VStr s \<and> length s \<le> 255))
      \<and> (length spec = 1 \<longrightarrow> keys spec = [''Id''] \<or> keys spec = [''Name'']))"
  using StreamingChannelSchema_empty StreamingChannelSchema_fields_ok
    StreamingChannelSchema_single
  by blast

text \<open>
  The sibling check of PushTopicSchema has the branch for several fields and rejects a
  mapping of several fields that lacks Name; the check of StreamingChannelSchema, whose
  docstring promises the same (``multiple fields are specified but they're not enough
  for a resource definition''), has no such branch and lets it pass.
\<close>

lemma check_required_fileds_siblings:
  "PushTopicSchema_check_required_fileds
     [(''Id'', VStr ''0M6''), (''Description'', VStr ''events'')]
     = Inl (ValidationError full_definition_message [''_schema''])
   \<and> StreamingChannelSchema_check_required_fileds
     [(''Id'', VStr ''0M6''), (''Description'', VStr ''events'')] = Inr ()"
  by (auto simp: PushTopicSchema_check_required_fileds_def
        StreamingChannelSchema_check_required_fileds_def keys_def)

text \<open>
  C8. The claim: in every StreamingChannel spec Name must be a string of length 1 to
  80, a Description, if present, a string of length at most 255, the empty spec is
  rejected and a one-field spec is accepted only with Id or Name. StreamingChannelSchema
  does not require Name in a spec of several fields: the spec with Id \<open>0M6\<close> and
  Description \<open>events\<close> and no Name is accepted, and loads to itself.
\<close>

theorem StreamingChannelSchema_accepts_without_Name:
  "load StreamingChannelSchema [(''Id'', VStr ''0M6''), (''Description'', VStr ''events'')]
     = Inr [(''Id'', VStr ''0M6''), (''Description'', VStr ''events'')]
   \<and> map_of [(''Id'', VStr ''0M6''), (''Description'', VStr ''events'')] ''Name'' = None"
  by (simp add: load_def StreamingChannelSchema_def StreamingChannelSchema_fields_def
        deserialize_def check_unknown_fields_def keys_def
        StreamingChannelSchema_check_required_fileds_def)

section \<open>Properties of RouteSchema\<close>

lemma RouteSchema_fields_ok:
  assumes "load RouteSchema spec = Inr data"
  shows "(\<exists>b. map_of spec ''broker_name'' = Some (VStr b) \<and> b \<noteq> [])
       \<and> (\<exists>e. map_of spec ''exchange_name'' = Some (VStr e))
       \<and> (\<exists>k. map_of spec ''routing_key'' = Some (VStr k) \<and> k \<noteq> [])"
proof -
  from assms have "snd (unmarshal RouteSchema_fields spec) = []"
    by (simp add: load_Inr RouteSchema_def)
  then have all: "\<forall>(n, f) \<in> set RouteSchema_fields.
               \<exists>out. deserialize f (map_of spec n) = Inr out"
    by (simp only: unmarshal_errors)
  have req: "\<exists>s. raw = Some (VStr s) \<and> list_all (\<lambda>c. validator_ok c (VStr s)) (validate f)"
    if "deserialize f raw = Inr out" "ftype f = String" "\<not> allow_none f" "required f"
    for f raw out
    using that by (cases raw) (auto simp: deserialize_missing deserialize_String)
  from all obtain o1 o2 o3 where
    "deserialize \<lparr>ftype = String, required = True, allow_none = False,
                  validate = [Length (Some 1) None]\<rparr> (map_of spec ''broker_name'') = Inr o1"
    "deserialize \<lparr>ftype = String, required = True, allow_none = False,
                  validate = []\<rparr> (map_of spec ''exchange_name'') = Inr o2"
    "deserialize \<lparr>ftype = String, required = True, allow_none = False,
                  validate = [Length (Some 1) None]\<rparr> (map_of spec ''routing_key'') = Inr o3"
    by (auto simp: RouteSchema_fields_def)
  from req[OF this(1)] req[OF this(2)] req[OF this(3)] show ?thesis
    by auto
qed

lemma RouteSchema_accepts:
  assumes "b \<noteq> []" and "k \<noteq> []"
  shows "load RouteSchema
           [(''broker_name'', VStr b), (''exchange_name'', VStr e), (''routing_key'', VStr k)]
         = Inr [(''broker_name'', VStr b), (''exchange_name'', VStr e),
                (''routing_key'', VStr k)]"
    and "load RouteSchema
           [(''broker_name'', VStr b), (''exchange_name'', VStr e), (''routing_key'', VStr k),
            (''properties'', VNone)]
         = Inr [(''broker_name'', VStr b), (''exchange_name'', VStr e),
                (''routing_key'', VStr k), (''properties'', VNone)]"
  using assms
  by (simp_all add: load_def RouteSchema_def RouteSchema_fields_def deserialize_def
        check_unknown_fields_def keys_def Suc_le_eq)

text \<open>
  C6. A route that RouteSchema accepts gives broker_name and routing_key as non-empty
  strings and gives exchange_name; so a route with an empty routing_key and a route
  without broker_name are rejected. A route with a non-empty broker_name and
  routing_key and an exchange_name is accepted without properties, and with properties
  null.
\<close>

theorem RouteSchema_requirements:
  "(load RouteSchema spec = Inr data \<longrightarrow>
      (\<exists>b. map_of spec ''broker_name'' = Some (VStr b) \<and> b \<noteq> [])
    \<and> (\<exists>e. map_of spec ''exchange_name'' = Some (VStr e))
    \<and> (\<exists>k. map_of spec ''routing_key'' = Some (VStr k) \<and> k \<noteq> []))
   \<and> (map_of spec ''routing_key'' = Some (VStr []) \<longrightarrow>
        (\<exists>errors. load RouteSchema spec = Inl errors))
   \<and> (''broker_name'' \<notin> set (keys spec) \<longrightarrow> (\<exists>errors. load RouteSchema spec = Inl errors))
   \<and> (b \<noteq> [] \<and> k \<noteq> [] \<longrightarrow>
        load RouteSchema
          [(''broker_name'', VStr b), (''exchange_name'', VStr e), (''routing_key'', VStr k)]
        = Inr [(''broker_name'', VStr b), (''exchange_name'', VStr e),
               (''routing_key'', VStr k)]
      \<and> load RouteSchema
          [(''broker_name'', VStr b), (''exchange_name'', VStr e), (''routing_key'', VStr k),
           (''properties'', VNone)]
        = Inr [(''broker_name'', VStr b), (''exchange_name'', VStr e),
               (''routing_key'', VStr k), (''properties'', VNone)])"
proof -
  have 1: "(\<exists>b. map_of spec ''broker_name'' = Some (VStr b) \<and> b \<noteq> [])
    \<and> (\<exists>e. map_of spec ''exchange_name'' = Some (VStr e))
    \<and> (\<exists>k. map_of spec ''routing_key'' = Some (VStr k) \<and> k \<noteq> [])"
    if "load RouteSchema spec = Inr data" for data
    using that by (rule RouteSchema_fields_ok)
  have 2: "\<exists>errors. load RouteSchema spec = Inl errors"
    if "map_of spec ''routing_key'' = Some (VStr [])"
    unfolding load_rejects using that 1 by fastforce
  have 3: "\<exists>errors. load RouteSchema spec = Inl errors"
    if "''broker_name'' \<notin> set (keys spec)"
  proof -
    from that have "map_of spec ''broker_name'' = None"
      by (simp add: map_of_keys)
    with 1 show ?thesis
      unfolding load_rejects by fastforce
  qed
  from 1 2 3 RouteSchema_accepts[of b k e] show ?thesis
    by blast
qed

theorem RouteSchema_requirements_witness:
  "load RouteSchema
     [(''broker_name'', VStr ''b1''), (''exchange_name'', VStr ''e1''),
      (''routing_key'', VStr ''k.a'')]
     = Inr [(''broker_name'', VStr ''b1''), (''exchange_name'', VStr ''e1''),
            (''routing_key'', VStr ''k.a'')]
   \<and> (\<exists>k. map_of [(''broker_name'', VStr ''b1''), (''exchange_name'', VStr ''e1''),
                   (''routing_key'', VStr ''k.a'')] ''routing_key'' = Some (VStr k) \<and> k \<noteq> [])
   \<and> map_of [(''broker_name'', VStr ''b1''), (''exchange_name'', VStr ''e1''),
              (''routing_key'', VStr [])] ''routing_key'' = Some (VStr [])
   \<and> (\<exists>errors. load RouteSchema
                   [(''broker_name'', VStr ''b1''), (''exchange_name'', VStr ''e1''),
                    (''routing_key'', VStr [])] = Inl errors)
   \<and> ''broker_name'' \<notin> set (keys [(''exchange_name'', VStr ''e1''),
                                    (''routing_key'', VStr ''k.a'')])
   \<and> (\<exists>errors. load RouteSchema
                   [(''exchange_name'', VStr ''e1''), (''routing_key'', VStr ''k.a'')]
                 = Inl errors)"
proof -
  let ?ok = "[(''broker_name'', VStr ''b1''), (''exchange_name'', VStr ''e1''),
              (''routing_key'', VStr ''k.a'')]"
  let ?empty_key = "[(''broker_name'', VStr ''b1''), (''exchange_name'', VStr ''e1''),
                     (''routing_key'', VStr [])]"
  let ?no_broker = "[(''exchange_name'', VStr ''e1''), (''routing_key'', VStr ''k.a'')]"
  have ne: "''b1'' \<noteq> [] \<and> ''k.a'' \<noteq> []"
    by simp
  from RouteSchema_requirements[of ?ok ?ok "''b1''" "''k.a''" "''e1''"] ne
  have a: "load RouteSchema ?ok = Inr ?ok"
    by blast
  from RouteSchema_requirements[of ?ok ?ok "''b1''" "''k.a''" "''e1''"] a
  have k: "\<exists>k. map_of ?ok ''routing_key'' = Some (VStr k) \<and> k \<noteq> []"
    by blast
  have m: "map_of ?empty_key ''routing_key'' = Some (VStr [])"
    by simp
  from RouteSchema_requirements[of ?empty_key ?ok "''b1''" "''k.a''" "''e1''"] m
  have r1: "\<exists>errors. load RouteSchema ?empty_key = Inl errors"
    by blast
  have nb: "''broker_name'' \<notin> set (keys ?no_broker)"
    by (simp add: keys_def)
  from RouteSchema_requirements[of ?no_broker ?ok "''b1''" "''k.a''" "''e1''"] nb
  have r2: "\<exists>errors. load RouteSchema ?no_broker = Inl errors"
    by blast
  from a k m r1 nb r2 show ?thesis
    by blast
qed

section \<open>Properties of the factories\<close>

lemma collect_Inr:
  "collect f xs = Inr ys \<longleftrightarrow> list_all2 (\<lambda>x y. f x = Inr y) xs ys"
proof (induction xs arbitrary: ys)
  case Nil
  then show ?case by auto
next
  case (Cons x xs)
  show ?case
    by (cases ys) (auto simp: Cons.IH[symmetric] split: sum.splits)
qed

lemma collect_total:
  "(\<forall>x \<in> set xs. \<exists>y. f x = Inr y) \<Longrightarrow> \<exists>ys. collect f xs = Inr ys"
  by (induction xs) (auto split: sum.splits)

lemma collect_map:
  "collect f xs = Inr ys \<Longrightarrow> map f xs = map Inr ys"
  unfolding collect_Inr by (induction xs ys rule: list_all2_induct) auto

text \<open>
  C7. When the factories build every given specification, create_router returns a
  router whose default route is None exactly when default_route_spec is None and is
  otherwise the route that route_factory builds from default_route_spec, and whose
  rules are what rule_factory builds from the entries of rule_specs, one per entry and
  in the same order.
\<close>

theorem create_router_builds:
  assumes "\<forall>spec. default_route_spec = Some spec \<longrightarrow> (\<exists>route. route_factory spec = Inr route)"
    and "\<forall>spec \<in> set rule_specs. \<exists>rule. rule_factory spec = Inr rule"
  shows "\<exists>router. create_router default_route_spec rule_specs route_factory rule_factory
                      = Inr router
           \<and> (router_default_route router = None \<longleftrightarrow> default_route_spec = None)
           \<and> map_option route_factory default_route_spec
               = map_option Inr (router_default_route router)
           \<and> length (router_rules router) = length rule_specs
           \<and> map rule_factory rule_specs = map Inr (router_rules router)"
proof -
  from collect_total[OF assms(2)] obtain rules where
    rules: "collect rule_factory rule_specs = Inr rules"
    by blast
  then have m: "map rule_factory rule_specs = map Inr rules"
    by (rule collect_map)
  then have len: "length rules = length rule_specs"
    by (metis length_map)
  show ?thesis
  proof (cases default_route_spec)
    case None
    with rules len m show ?thesis
      by (simp add: create_router_def)
  next
    case (Some spec)
    with assms(1) obtain route where "route_factory spec = Inr route"
      by blast
    with Some rules len m show ?thesis
      by (simp add: create_router_def)
  qed
qed

theorem create_router_builds_witness:
  "\<exists>router. create_router (Some [(''broker_name'', VStr ''b1'')])
               [[(''condition_spec'', VStr ''a'')], [(''condition_spec'', VStr ''b'')]]
               (Inr :: dict \<Rightarrow> error + dict) (Inr :: dict \<Rightarrow> error + dict)
             = Inr router
        \<and> router_default_route router = Some [(''broker_name'', VStr ''b1'')]
        \<and> router_rules router
            = [[(''condition_spec'', VStr ''a'')], [(''condition_spec'', VStr ''b'')]]"
proof -
  let ?d = "[(''broker_name'', VStr ''b1'')]"
  let ?rs = "[[(''condition_spec'', VStr ''a'')], [(''condition_spec'', VStr ''b'')]]"
  have h1: "\<forall>spec. Some ?d = Some spec \<longrightarrow> (\<exists>route. (Inr :: dict \<Rightarrow> error + dict) spec = Inr route)"
    by simp
  have h2: "\<forall>spec \<in> set ?rs. \<exists>rule. (Inr :: dict \<Rightarrow> error + dict) spec = Inr rule"
    by simp
  from create_router_builds[of "Some ?d" Inr ?rs Inr, OF h1 h2]
  obtain router :: "(dict, dict) MessageRouter" where
    r: "create_router (Some ?d) ?rs Inr Inr = Inr router"
    and d: "map_option Inr (Some ?d) = map_option (Inr :: dict \<Rightarrow> error + dict) (router_default_route router)"
    and m: "map Inr ?rs = map (Inr :: dict \<Rightarrow> error + dict) (router_rules router)"
    by blast
  from d have "router_default_route router = Some ?d"
    by (cases "router_default_route router") auto
  moreover from m have "router_rules router = ?rs"
    by (simp add: inj_map_eq_map[OF inj_Inr, symmetric] del: list.map)
  ultimately show ?thesis
    using r by blast
qed

lemma named_orgs:
  "list_all2 (\<lambda>x y. (case x of (name, spec) \<Rightarrow>
                        case org_factory spec of Inl e \<Rightarrow> Inl e
                        | Inr org \<Rightarrow> Inr (name, org)) = Inr y) org_specs orgs
   \<Longrightarrow> map fst orgs = map fst org_specs
     \<and> map (\<lambda>(name, spec). org_factory spec) org_specs = map (\<lambda>(name, org). Inr org) orgs"
  by (induction org_specs orgs rule: list_all2_induct) (auto split: sum.splits)

text \<open>
  What create_message_source returns when every org is built and the replay
  specification does not itself carry a \<open>loop\<close> key.
\<close>

lemma create_message_source_result:
  assumes ok: "\<forall>(name, spec) \<in> set org_specs. \<exists>org. org_factory spec = Inr org"
    and nl: "\<forall>d. replay_spec = Some d \<longrightarrow> ''loop'' \<notin> set (keys d)"
  shows "\<exists>srcs. create_message_source org_specs replay_spec org_factory loop
            = Inr (if length srcs = 1 then OrgMessageSource (srcs ! 0)
                   else MultiMessageSource srcs loop,
                   if truthy replay_spec
                   then [\<lparr>storage_kwargs = the replay_spec, storage_loop = loop\<rparr>] else [])
         \<and> map src_name srcs = map fst org_specs
         \<and> map (\<lambda>(name, spec). org_factory spec) org_specs = map (\<lambda>s. Inr (src_org s)) srcs
         \<and> (\<forall>s \<in> set srcs.
               src_replay_marker_storage s = (if truthy replay_spec then Some 0 else None) \<and>
               src_replay_fallback s = (if truthy replay_spec then Some ALL_EVENTS else None) \<and>
               src_loop s = loop)"
proof -
  let ?g = "\<lambda>(name, spec). case org_factory spec of
                               Inl e \<Rightarrow> Inl e | Inr org \<Rightarrow> Inr (name, org)"
  have "\<forall>x \<in> set org_specs. \<exists>y. ?g x = Inr y"
    using ok by (auto split: sum.splits)
  from collect_total[OF this] obtain orgs where orgs: "collect ?g org_specs = Inr orgs"
    by blast
  then have "list_all2 (\<lambda>x y. ?g x = Inr y) org_specs orgs"
    by (simp add: collect_Inr)
  from named_orgs[OF this]
  have names: "map fst orgs = map fst org_specs"
    and built: "map (\<lambda>(name, spec). org_factory spec) org_specs
                  = map (\<lambda>(name, org). Inr org) orgs"
    by simp_all
  let ?st = "if truthy replay_spec then Some (0::nat) else None"
  let ?fb = "if truthy replay_spec then Some ALL_EVENTS else None"
  let ?srcs = "map (\<lambda>(name, org). \<lparr>src_name = name, src_org = org,
                                      src_replay_marker_storage = ?st,
                                      src_replay_fallback = ?fb,
                                      src_loop = loop\<rparr>) orgs"
  have noloop: "truthy replay_spec \<Longrightarrow> ''loop'' \<notin> set (keys (the replay_spec))"
    using nl by (cases replay_spec) auto
  have 1: "create_message_source org_specs replay_spec org_factory loop
            = Inr (if length ?srcs = 1 then OrgMessageSource (?srcs ! 0)
                   else MultiMessageSource ?srcs loop,
                   if truthy replay_spec
                   then [\<lparr>storage_kwargs = the replay_spec, storage_loop = loop\<rparr>] else [])"
    using orgs noloop by (simp add: create_message_source_def Let_def)
  have 2: "map src_name ?srcs = map fst org_specs"
    using names by (simp add: comp_def case_prod_unfold)
  have 3: "map (\<lambda>(name, spec). org_factory spec) org_specs = map (\<lambda>s. Inr (src_org s)) ?srcs"
    using built by (simp add: comp_def case_prod_unfold)
  have 4: "\<forall>s \<in> set ?srcs.
               src_replay_marker_storage s = ?st \<and> src_replay_fallback s = ?fb \<and>
               src_loop s = loop"
    by auto
  from 1 2 3 4 show ?thesis
    by blast
qed

text \<open>
  C9, as the code has it. When every org is built, create_message_source returns the
  per-org sources, one per entry of org_specs and in its order, each wrapping the org
  built from its entry; the result is the single source itself exactly when org_specs
  has one entry, and a MultiMessageSource grouping the sources exactly when the number
  of entries is not one (two or more, and also none: the empty mapping, which
  MessageSourceSchema excludes with Length(min=1), gives an empty MultiMessageSource).
\<close>

theorem create_message_source_single_or_multi:
  assumes "\<forall>(name, spec) \<in> set org_specs. \<exists>org. org_factory spec = Inr org"
    and "\<forall>d. replay_spec = Some d \<longrightarrow> ''loop'' \<notin> set (keys d)"
  shows "\<exists>ms created. create_message_source org_specs replay_spec org_factory loop
                           = Inr (ms, created)
           \<and> map src_name (sources ms) = map fst org_specs
           \<and> map (\<lambda>(name, spec). org_factory spec) org_specs
               = map (\<lambda>s. Inr (src_org s)) (sources ms)
           \<and> ((\<exists>src. ms = OrgMessageSource src) \<longleftrightarrow> length org_specs = 1)
           \<and> (ms = MultiMessageSource (sources ms) loop \<longleftrightarrow> length org_specs \<noteq> 1)"
proof -
  from create_message_source_result[OF assms, of loop] obtain srcs where
    r: "create_message_source org_specs replay_spec org_factory loop
            = Inr (if length srcs = 1 then OrgMessageSource (srcs ! 0)
                   else MultiMessageSource srcs loop,
                   if truthy replay_spec
                   then [\<lparr>storage_kwargs = the replay_spec, storage_loop = loop\<rparr>] else [])"
    and n: "map src_name srcs = map fst org_specs"
    and b: "map (\<lambda>(name, spec). org_factory spec) org_specs = map (\<lambda>s. Inr (src_org s)) srcs"
    by blast
  from n have len: "length srcs = length org_specs"
    by (metis length_map)
  show ?thesis
  proof (cases "length srcs = 1")
    case True
    then obtain s where s: "srcs = [s]"
      by (cases srcs) auto
    with r n b len show ?thesis
      by auto
  next
    case False
    with r n b len show ?thesis
      by auto
  qed
qed

theorem create_message_source_single_or_multi_witness:
  "\<exists>ms created. create_message_source [(''org_name1'', [(''key1'', VStr ''value1'')])] None
                    (Inr :: dict \<Rightarrow> error + dict) None = Inr (ms, created)
        \<and> map src_name (sources ms) = [''org_name1'']
        \<and> map src_org (sources ms) = [[(''key1'', VStr ''value1'')]]
        \<and> (\<exists>src. ms = OrgMessageSource src)"
proof -
  let ?specs = "[(''org_name1'', [(''key1'', VStr ''value1'')])]"
  have h1: "\<forall>(name, spec) \<in> set ?specs. \<exists>org. (Inr :: dict \<Rightarrow> error + dict) spec = Inr org"
    by simp
  have h2: "\<forall>d. (None :: dict option) = Some d \<longrightarrow> ''loop'' \<notin> set (keys d)"
    by simp
  from create_message_source_single_or_multi[of ?specs Inr None None, OF h1 h2]
  obtain ms :: "dict MessageSource" and created where
    r: "create_message_source ?specs None Inr None = Inr (ms, created)"
    and n: "map src_name (sources ms) = map fst ?specs"
    and b: "map (\<lambda>(name, spec). (Inr :: dict \<Rightarrow> error + dict) spec) ?specs
              = map (\<lambda>s. Inr (src_org s)) (sources ms)"
    and one: "(\<exists>src. ms = OrgMessageSource src) \<longleftrightarrow> length ?specs = 1"
    by blast
  from b have "map src_org (sources ms) = [[(''key1'', VStr ''value1'')]]"
    by (cases "sources ms") auto
  with r n one show ?thesis
    by auto
qed

text \<open>
  The claim as stated has a MultiMessageSource only for two or more entries; for the
  empty mapping the code returns one too.
\<close>

theorem create_message_source_empty_counterexample:
  "create_message_source [] None (Inr :: dict \<Rightarrow> error + dict) None
     = Inr (MultiMessageSource [] None, [])
   \<and> \<not> 2 \<le> length ([] :: (string \<times> dict) list)"
  by (simp add: create_message_source_def)

text \<open>
  C10. When every org is built: with replay_spec absent or empty no replay marker
  storage is created and every message source gets storage None and fallback None;
  with a non-empty replay_spec exactly one RedisReplayStorage is created, from the
  specification, every message source refers to that one storage and the fallback is
  ALL_EVENTS. In both cases there is one message source per entry of org_specs.
\<close>

theorem create_message_source_replay:
  assumes "\<forall>(name, spec) \<in> set org_specs. \<exists>org. org_factory spec = Inr org"
  shows "(replay_spec = None \<or> replay_spec = Some [] \<longrightarrow>
            (\<exists>ms. create_message_source org_specs replay_spec org_factory loop = Inr (ms, [])
                \<and> length (sources ms) = length org_specs
                \<and> (\<forall>s \<in> set (sources ms).
                      src_replay_marker_storage s = None \<and> src_replay_fallback s = None)))
       \<and> (\<forall>d. replay_spec = Some d \<and> d \<noteq> [] \<and> ''loop'' \<notin> set (keys d) \<longrightarrow>
            (\<exists>ms. create_message_source org_specs replay_spec org_factory loop
                     = Inr (ms, [\<lparr>storage_kwargs = d, storage_loop = loop\<rparr>])
                \<and> length (sources ms) = length org_specs
                \<and> (\<forall>s \<in> set (sources ms).
                      src_replay_marker_storage s = Some 0 \<and>
                      src_replay_fallback s = Some ALL_EVENTS)))"
proof -
  have core: "\<exists>ms. create_message_source org_specs replay_spec org_factory loop
                     = Inr (ms, if truthy replay_spec
                                then [\<lparr>storage_kwargs = the replay_spec, storage_loop = loop\<rparr>]
                                else [])
                \<and> length (sources ms) = length org_specs
                \<and> (\<forall>s \<in> set (sources ms).
                      src_replay_marker_storage s = (if truthy replay_spec then Some 0 else None) \<and>
                      src_replay_fallback s
                        = (if truthy replay_spec then Some ALL_EVENTS else None))"
    if nl: "\<forall>d. replay_spec = Some d \<longrightarrow> ''loop'' \<notin> set (keys d)"
  proof -
    from create_message_source_result[OF assms nl, of loop] obtain srcs where
      r: "create_message_source org_specs replay_spec org_factory loop
            = Inr (if length srcs = 1 then OrgMessageSource (srcs ! 0)
                   else MultiMessageSource srcs loop,
                   if truthy replay_spec
                   then [\<lparr>storage_kwargs = the replay_spec, storage_loop = loop\<rparr>] else [])"
      and n: "map src_name srcs = map fst org_specs"
      and f: "\<forall>s \<in> set srcs.
               src_replay_marker_storage s = (if truthy replay_spec then Some 0 else None) \<and>
               src_replay_fallback s = (if truthy replay_spec then Some ALL_EVENTS else None) \<and>
               src_loop s = loop"
      by blast
    let ?ms = "if length srcs = 1 then OrgMessageSource (srcs ! 0)
               else MultiMessageSource srcs loop"
    have s: "sources ?ms = srcs"
      by (cases srcs) auto
    from n have "length srcs = length org_specs"
      by (metis length_map)
    with r f s show ?thesis
      by auto
  qed
  have a: "\<exists>ms. create_message_source org_specs replay_spec org_factory loop = Inr (ms, [])
                \<and> length (sources ms) = length org_specs
                \<and> (\<forall>s \<in> set (sources ms).
                      src_replay_marker_storage s = None \<and> src_replay_fallback s = None)"
    if "replay_spec = None \<or> replay_spec = Some []"
  proof -
    from that have "\<forall>d. replay_spec = Some d \<longrightarrow> ''loop'' \<notin> set (keys d)"
      by (auto simp: keys_def)
    moreover from that have "\<not> truthy replay_spec"
      by auto
    ultimately show ?thesis
      using core by simp
  qed
  have b: "\<exists>ms. create_message_source org_specs replay_spec org_factory loop
                     = Inr (ms, [\<lparr>storage_kwargs = d, storage_loop = loop\<rparr>])
                \<and> length (sources ms) = length org_specs
                \<and> (\<forall>s \<in> set (sources ms).
                      src_replay_marker_storage s = Some 0 \<and>
                      src_replay_fallback s = Some ALL_EVENTS)"
    if "replay_spec = Some d \<and> d \<noteq> [] \<and> ''loop'' \<notin> set (keys d)" for d
  proof -
    from that have "\<forall>d. replay_spec = Some d \<longrightarrow> ''loop'' \<notin> set (keys d)"
      by auto
    moreover from that have "truthy replay_spec" "the replay_spec = d"
      by auto
    ultimately show ?thesis
      using core by simp
  qed
  from a b show ?thesis
    by blast
qed

theorem create_message_source_replay_witness:
  "(\<exists>ms. create_message_source
            [(''org_name1'', [(''key1'', VStr ''value1'')]),
             (''org_name2'', [(''key2'', VStr ''value2'')])]
            None (Inr :: dict \<Rightarrow> error + dict) None = Inr (ms, [])
        \<and> length (sources ms) = 2
        \<and> list_all (\<lambda>s. src_replay_marker_storage s = None \<and> src_replay_fallback s = None)
             (sources ms))
   \<and> (\<exists>ms. create_message_source
            [(''org_name1'', [(''key1'', VStr ''value1'')]),
             (''org_name2'', [(''key2'', VStr ''value2'')])]
            (Some [(''address'', VStr ''redis://localhost'')])
            (Inr :: dict \<Rightarrow> error + dict) None
          = Inr (ms, [\<lparr>storage_kwargs = [(''address'', VStr ''redis://localhost'')],
                      storage_loop = None\<rparr>])
        \<and> length (sources ms) = 2
        \<and> list_all (\<lambda>s. src_replay_marker_storage s = Some 0 \<and>
                         src_replay_fallback s = Some ALL_EVENTS)
             (sources ms))"
proof -
  let ?specs = "[(''org_name1'', [(''key1'', VStr ''value1'')]),
                 (''org_name2'', [(''key2'', VStr ''value2'')])]"
  let ?replay = "[(''address'', VStr ''redis://localhost'')]"
  have h: "\<forall>(name, spec) \<in> set ?specs. \<exists>org. (Inr :: dict \<Rightarrow> error + dict) spec = Inr org"
    by simp
  have g: "Some ?replay = Some ?replay \<and> ?replay \<noteq> [] \<and> ''loop'' \<notin> set (keys ?replay)"
    by (simp add: keys_def)
  from create_message_source_replay[of ?specs Inr None None, OF h]
  have a: "\<exists>ms. create_message_source ?specs None (Inr :: dict \<Rightarrow> error + dict) None
                   = Inr (ms, [])
        \<and> length (sources ms) = 2
        \<and> list_all (\<lambda>s. src_replay_marker_storage s = None \<and> src_replay_fallback s = None)
             (sources ms)"
    by (simp add: list_all_iff numeral_2_eq_2)
  from create_message_source_replay[of ?specs Inr "Some ?replay" None, OF h] g
  have b: "\<exists>ms. create_message_source ?specs (Some ?replay) (Inr :: dict \<Rightarrow> error + dict) None
          = Inr (ms, [\<lparr>storage_kwargs = ?replay, storage_loop = None\<rparr>])
        \<and> length (sources ms) = 2
        \<and> list_all (\<lambda>s. src_replay_marker_storage s = Some 0 \<and>
                         src_replay_fallback s = Some ALL_EVENTS)
             (sources ms)"
    by (simp add: list_all_iff numeral_2_eq_2)
  from a b show ?thesis
    by blast
qed

text \<open>
  C4. The claim: for a source named S the replay marker storage is created with the
  composite prefix \<open><key_prefix>:<S>\<close> (and with \<open><S>\<close> when the prefix is left out), as
  the tests of the factories require (\<open>key_prefix="prefix:name"\<close> for the source called
  name). create_message_source passes the replay specification to RedisReplayStorage
  as it is: for the source called name and the prefix \<open>prefix\<close> the storage is created
  with \<open>key_prefix="prefix"\<close>, and without a prefix it is created without any.
\<close>

theorem create_message_source_key_prefix:
  "create_message_source [(''name'', [(''consumer_key'', VStr ''key'')])]
     (Some [(''address'', VStr ''address''), (''key_prefix'', VStr ''prefix'')])
     (Inr :: dict \<Rightarrow> error + dict) None
   = Inr (OrgMessageSource
            \<lparr>src_name = ''name'', src_org = [(''consumer_key'', VStr ''key'')],
             src_replay_marker_storage = Some 0, src_replay_fallback = Some ALL_EVENTS,
             src_loop = None\<rparr>,
          [\<lparr>storage_kwargs = [(''address'', VStr ''address''), (''key_prefix'', VStr ''prefix'')],
            storage_loop = None\<rparr>])
   \<and> create_message_source [(''name'', [(''consumer_key'', VStr ''key'')])]
     (Some [(''address'', VStr ''address'')])
     (Inr :: dict \<Rightarrow> error + dict) None
   = Inr (OrgMessageSource
            \<lparr>src_name = ''name'', src_org = [(''consumer_key'', VStr ''key'')],
             src_replay_marker_storage = Some 0, src_replay_fallback = Some ALL_EVENTS,
             src_loop = None\<rparr>,
          [\<lparr>storage_kwargs = [(''address'', VStr ''address'')], storage_loop = None\<rparr>])"
  by (simp add: create_message_source_def keys_def)

section \<open>Properties of the completion hook\<close>

text \<open>
  C5. For a forwarding task that finished with a MessageSinkError: when
  ignore_sink_errors is set the completion hook logs one ERROR record, removes the task
  from the in-flight set and raises nothing; when it is not set the same
  MessageSinkError is raised again. An exception of any other type is always raised
  again.
\<close>

theorem forward_message_done_errors:
  "(ignore_sink_errors app \<longrightarrow>
      fst (forward_message_done app future (Inl (MessageSinkError m))) = Inr ()
    \<and> logged (snd (forward_message_done app future (Inl (MessageSinkError m))))
        = logged app @ [(ERROR, future)]
    \<and> future \<notin> dom (forwarding_tasks
                       (snd (forward_message_done app future (Inl (MessageSinkError m))))))
   \<and> (\<not> ignore_sink_errors app \<longrightarrow>
        fst (forward_message_done app future (Inl (MessageSinkError m)))
          = Inl (MessageSinkError m))
   \<and> fst (forward_message_done app future (Inl (OtherException m))) = Inl (OtherException m)"
  by (simp add: forward_message_done_def)

theorem forward_message_done_errors_witness:
  "ignore_sink_errors \<lparr>ignore_sink_errors = True,
                        forwarding_tasks = [7 \<mapsto> \<lparr>source_name = ''source'', message = VNone\<rparr>],
                        logged = []\<rparr>
   \<and> fst (forward_message_done
            \<lparr>ignore_sink_errors = True,
             forwarding_tasks = [7 \<mapsto> \<lparr>source_name = ''source'', message = VNone\<rparr>],
             logged = []\<rparr> 7 (Inl (MessageSinkError ''message''))) = Inr ()
   \<and> \<not> ignore_sink_errors \<lparr>ignore_sink_errors = False,
                          forwarding_tasks = [7 \<mapsto> \<lparr>source_name = ''source'', message = VNone\<rparr>],
                          logged = []\<rparr>
   \<and> fst (forward_message_done
            \<lparr>ignore_sink_errors = False,
             forwarding_tasks = [7 \<mapsto> \<lparr>source_name = ''source'', message = VNone\<rparr>],
             logged = []\<rparr> 7 (Inl (MessageSinkError ''message'')))
       = Inl (MessageSinkError ''message'')"
proof -
  let ?t = "[7 \<mapsto> \<lparr>source_name = ''source'', message = VNone\<rparr>]"
  let ?on = "\<lparr>ignore_sink_errors = True, forwarding_tasks = ?t, logged = []\<rparr>"
  let ?off = "\<lparr>ignore_sink_errors = False, forwarding_tasks = ?t, logged = []\<rparr>"
  have i: "ignore_sink_errors ?on"
    by simp
  have n: "\<not> ignore_sink_errors ?off"
    by simp
  from forward_message_done_errors[of ?on 7 "''message''"] i
  have a: "fst (forward_message_done ?on 7 (Inl (MessageSinkError ''message''))) = Inr ()"
    by blast
  from forward_message_done_errors[of ?off 7 "''message''"] n
  have b: "fst (forward_message_done ?off 7 (Inl (MessageSinkError ''message'')))
             = Inl (MessageSinkError ''message'')"
    by blast
  from i a n b show ?thesis
    by blast
qed

end
